theory Spec2Isabelle
  imports Main "HOL-Library.Char_ord" "HOL-Library.List_Lexorder"
begin

section \<open>JavaScript values shared by the scripts\<close>

text \<open>
  An environment variable, or an optional property, is \<open>None\<close> when it is \<open>undefined\<close>.
  In a condition JavaScript takes a string for true when it is not the empty string.
\<close>

definition truthy :: "string option \<Rightarrow> bool" where
  "truthy v = (case v of None \<Rightarrow> False | Some s \<Rightarrow> s \<noteq> [])"

text \<open>
  A thrown value: an \<open>Error\<close> object with its message, or any other value
  (\<open>error instanceof Error\<close> is false for it).
\<close>

datatype thrown = Error string | NonError

text \<open>\<open>error instanceof Error ? error.message : fallback\<close>\<close>

fun message_or :: "string \<Rightarrow> thrown \<Rightarrow> string" where
  "message_or fallback (Error m) = m"
| "message_or fallback NonError = fallback"


section \<open>The health endpoint (\<open>GET\<close>, src/unnamed/part_001)\<close>

text \<open>
  The handler runs five guarded queries. Each one either resolves (\<open>None\<close>) or throws
  (\<open>Some t\<close>). The first two both select from \<open>workspace\<close>, but they are two calls and
  may end differently. Everything else in the outer \<open>try\<close> (\<open>Date.now\<close>,
  \<open>process.uptime\<close>, building the response) is outside the five inner guards: an
  exception there escapes the body and reaches the outer \<open>catch\<close>. The field \<open>escaping\<close>
  holds that exception, when there is one.
\<close>

record health_env =
  ping_workspace :: "thrown option"
  select_workspace :: "thrown option"
  select_permissions :: "thrown option"
  select_workflow :: "thrown option"
  select_workflow_blocks :: "thrown option"
  escaping :: "thrown option"

record check =
  ok :: bool
  error :: "string option"

record response =
  http_status :: nat
  body_status :: string
  body_checks :: "(string \<times> check) list"
  body_error :: "string option"

text \<open>
  One \<open>try { await query } catch (error) { checks.k = { ok: false, error: ... } }\<close>:
  the entry stays \<open>{ ok: true }\<close> unless the query throws.
\<close>

definition guarded :: "string \<Rightarrow> thrown option \<Rightarrow> check" where
  "guarded fallback q =
     (case q of
        None \<Rightarrow> \<lparr>ok = True, error = None\<rparr>
      | Some t \<Rightarrow> \<lparr>ok = False, error = Some (message_or fallback t)\<rparr>)"

text \<open>The \<open>checks\<close> object after the five guards, in the insertion order of its keys.\<close>

definition run_checks :: "health_env \<Rightarrow> (string \<times> check) list" where
  "run_checks e =
     [(''dbConnection'', guarded ''unknown'' (ping_workspace e)),
      (''table_workspace'', guarded ''missing or unreadable'' (select_workspace e)),
      (''table_permissions'', guarded ''missing or unreadable'' (select_permissions e)),
      (''table_workflow'', guarded ''missing or unreadable'' (select_workflow e)),
      (''table_workflow_blocks'', guarded ''missing or unreadable'' (select_workflow_blocks e))]"

text \<open>\<open>Object.values(checks).every((c) => c.ok)\<close>\<close>

definition all_ok :: "(string \<times> check) list \<Rightarrow> bool" where
  "all_ok cs = list_all (\<lambda>c. ok (snd c)) cs"

definition GET :: "health_env \<Rightarrow> response" where
  "GET e =
     (case escaping e of
        Some t \<Rightarrow>
          \<lparr>http_status = 500, body_status = ''unhealthy'', body_checks = [],
           body_error = Some (message_or ''Unknown error'' t)\<rparr>
      | None \<Rightarrow>
          (let checks = run_checks e; allOk = all_ok checks
           in \<lparr>http_status = (if allOk then 200 else 503),
               body_status = (if allOk then ''healthy'' else ''degraded''),
               body_checks = checks,
               body_error = None\<rparr>))"

text \<open>The value a response body records for the check \<open>k\<close>; a missing key counts as failed.\<close>

definition recorded_ok :: "response \<Rightarrow> string \<Rightarrow> bool" where
  "recorded_ok r k = (case map_of (body_checks r) k of None \<Rightarrow> False | Some c \<Rightarrow> ok c)"

definition five_checks_ok :: "response \<Rightarrow> bool" where
  "five_checks_ok r =
     (recorded_ok r ''dbConnection'' \<and> recorded_ok r ''table_workspace''
      \<and> recorded_ok r ''table_permissions'' \<and> recorded_ok r ''table_workflow''
      \<and> recorded_ok r ''table_workflow_blocks'')"

text \<open>Three environments for the examples: all queries resolve; one table is unreadable;
  an exception escapes the body.\<close>

definition env_healthy :: health_env where
  "env_healthy =
     \<lparr>ping_workspace = None, select_workspace = None, select_permissions = None,
      select_workflow = None, select_workflow_blocks = None, escaping = None\<rparr>"

definition env_degraded :: health_env where
  "env_degraded = env_healthy\<lparr>select_workflow := Some (Error ''relation does not exist'')\<rparr>"

definition env_unhealthy :: health_env where
  "env_unhealthy = env_healthy\<lparr>escaping := Some NonError\<rparr>"


section \<open>The base URL of the auth client (\<open>getBaseURL\<close>, src/apps/sim/lib/auth-client.ts)\<close>

text \<open>
  \<open>window\<close> is \<open>None\<close> on the server (\<open>typeof window === 'undefined'\<close>); its
  \<open>location\<close> and the location's \<open>origin\<close> may be missing (\<open>window.location?.origin\<close>).
  \<open>env\<close> and \<open>getEnv\<close> come from \<open>@/lib/env\<close>, which is not among the sources: the
  values they return are fields of the environment.
\<close>

datatype location = Location (origin: "string option")

datatype window = Window (location: "location option")

record url_env =
  window :: "window option"
  VERCEL_ENV :: "string option"
  NEXT_PUBLIC_VERCEL_URL :: "string option"
  NEXT_PUBLIC_APP_URL :: "string option"
  BETTER_AUTH_URL :: "string option"
  NODE_ENV :: "string option"

text \<open>\<open>window.location?.origin\<close>, for a \<open>window\<close> that is defined\<close>

definition window_origin :: "window \<Rightarrow> string option" where
  "window_origin w = (case location w of None \<Rightarrow> None | Some l \<Rightarrow> origin l)"

text \<open>\<open>typeof window !== 'undefined' && window.location?.origin\<close>\<close>

definition browser_origin :: "url_env \<Rightarrow> string option" where
  "browser_origin e = (case window e of None \<Rightarrow> None | Some w \<Rightarrow> window_origin w)"

text \<open>
  The block \<open>if (vercelEnv === 'preview' || vercelEnv === 'development') { ... }\<close>:
  \<open>Some u\<close> when it returns \<open>u\<close>, \<open>None\<close> when control falls through.
\<close>

definition preview_block :: "url_env \<Rightarrow> string option" where
  "preview_block e =
     (if VERCEL_ENV e = Some ''preview'' \<or> VERCEL_ENV e = Some ''development'' then
        (if truthy (NEXT_PUBLIC_VERCEL_URL e)
         then Some (''https://'' @ the (NEXT_PUBLIC_VERCEL_URL e)) else None)
      else None)"

text \<open>The block \<open>if (vercelEnv === 'production') { ... }\<close>, in the same way.\<close>

definition production_block :: "url_env \<Rightarrow> string option" where
  "production_block e =
     (if VERCEL_ENV e = Some ''production'' then
        (if truthy (BETTER_AUTH_URL e) then BETTER_AUTH_URL e
         else if truthy (NEXT_PUBLIC_APP_URL e) then NEXT_PUBLIC_APP_URL e
         else if truthy (NEXT_PUBLIC_VERCEL_URL e)
           then Some (''https://'' @ the (NEXT_PUBLIC_VERCEL_URL e))
         else None)
      else None)"

text \<open>
  The rest of the function, from "Generic resolution" to the end. Its last two lines
  return the same default, as in the source.
\<close>

definition generic_block :: "url_env \<Rightarrow> string" where
  "generic_block e =
     (if truthy (BETTER_AUTH_URL e) then the (BETTER_AUTH_URL e)
      else if truthy (NEXT_PUBLIC_APP_URL e) then the (NEXT_PUBLIC_APP_URL e)
      else if truthy (NEXT_PUBLIC_VERCEL_URL e) then ''https://'' @ the (NEXT_PUBLIC_VERCEL_URL e)
      else if NODE_ENV e = Some ''development'' then ''http://localhost:3000''
      else ''http://localhost:3000'')"

definition getBaseURL :: "url_env \<Rightarrow> string" where
  "getBaseURL e =
     (if truthy (browser_origin e) then the (browser_origin e)
      else case preview_block e of
        Some u \<Rightarrow> u
      | None \<Rightarrow>
          (case production_block e of
             Some u \<Rightarrow> u
           | None \<Rightarrow> generic_block e))"

text \<open>
  The two blocks under the source's comment "Explicit Vercel environments": the first is
  entered for \<open>preview\<close> and \<open>development\<close>, the second for \<open>production\<close>.
\<close>

definition explicit_vercel_env :: "url_env \<Rightarrow> bool" where
  "explicit_vercel_env e =
     (VERCEL_ENV e = Some ''preview'' \<or> VERCEL_ENV e = Some ''development''
      \<or> VERCEL_ENV e = Some ''production'')"

text \<open>Two environments for the examples: a browser, and a self-hosted server whose
  \<open>BETTER_AUTH_URL\<close> is the empty string.\<close>

definition env_browser :: url_env where
  "env_browser =
     \<lparr>window = Some (Window (Some (Location (Some ''https://sim.example'')))),
      VERCEL_ENV = Some ''preview'', NEXT_PUBLIC_VERCEL_URL = Some ''p.vercel.app'',
      NEXT_PUBLIC_APP_URL = None, BETTER_AUTH_URL = None, NODE_ENV = None\<rparr>"

definition env_selfhosted :: url_env where
  "env_selfhosted =
     \<lparr>window = None, VERCEL_ENV = None, NEXT_PUBLIC_VERCEL_URL = Some ''p.vercel.app'',
      NEXT_PUBLIC_APP_URL = Some ''https://app.example'', BETTER_AUTH_URL = Some [],
      NODE_ENV = Some ''production''\<rparr>"


section \<open>The standalone migration runner (\<open>runMigrations\<close>, src/unnamed/part_011)\<close>

subsection \<open>The string methods the runner calls\<close>

text \<open>
  A \<open>char\<close> stands for one code unit below 256, which covers the ASCII file names and SQL
  text the runner reads. The order on \<open>string\<close> is the lexicographic order by code unit,
  the order of JavaScript's \<open>sort()\<close> without a comparator.
\<close>

text \<open>\<open>s.endsWith(suffix)\<close>\<close>

definition endsWith :: "string \<Rightarrow> string \<Rightarrow> bool" where
  "endsWith s suffix =
     (length suffix \<le> length s \<and> drop (length s - length suffix) s = suffix)"

text \<open>\<open>s.startsWith(p)\<close>\<close>

definition startsWith :: "string \<Rightarrow> string \<Rightarrow> bool" where
  "startsWith s p = (take (length p) s = p)"

text \<open>\<open>s.split(c)\<close> for a separator of one character: the pieces between the separators,
  never an empty array.\<close>

fun split :: "char \<Rightarrow> string \<Rightarrow> string list" where
  "split c [] = [[]]"
| "split c (x # xs) =
     (if x = c then [] # split c xs
      else case split c xs of
        [] \<Rightarrow> [[x]]
      | p # ps \<Rightarrow> (x # p) # ps)"

text \<open>White space and line terminators that \<open>trim()\<close> removes, among the code units below
  256: tab, line feed, vertical tab, form feed, carriage return, space, no-break space.\<close>

definition is_space :: "char \<Rightarrow> bool" where
  "is_space c = (of_char c \<in> {9, 10, 11, 12, 13, 32, 160 :: nat})"

definition trim :: "string \<Rightarrow> string" where
  "trim s = rev (dropWhile is_space (rev (dropWhile is_space s)))"

text \<open>\<open>s.replace(pattern, replacement)\<close> with a string pattern: the first occurrence only.\<close>

fun replace :: "string \<Rightarrow> string \<Rightarrow> string \<Rightarrow> string" where
  "replace [] pattern replacement = (if pattern = [] then replacement else [])"
| "replace (x # xs) pattern replacement =
     (if startsWith (x # xs) pattern then replacement @ drop (length pattern) (x # xs)
      else x # replace xs pattern replacement)"

subsection \<open>The world outside the script\<close>

text \<open>
  What the database and the file system answer. A call that throws is \<open>Inl\<close> (or
  \<open>Some\<close>) of the thrown value. \<open>postgres cs\<close> is the outcome of \<open>postgres(cs)\<close>,
  which throws on a connection string it cannot parse. \<open>exists_query\<close> is the answer to
  the existence query, and \<open>hash_unique\<close> says whether a table that is already there has
  a unique index on \<open>hash\<close>. \<open>unsafe f i\<close> is the outcome of \<open>sql.unsafe\<close> on statement
  number \<open>i\<close> of the file \<open>f\<close>: \<open>Some m\<close> when it throws an error with the message
  \<open>m\<close>. \<open>insert_migration f\<close> is the outcome of the \<open>INSERT\<close> that records \<open>f\<close> on a
  table where the statement is accepted, and \<open>now f\<close> the value of \<open>Date.now()\<close> in it.
\<close>

record mig_env =
  DATABASE_URL :: "string option"
  postgres :: "string \<Rightarrow> thrown option"
  exists_query :: "thrown + bool"
  hash_unique :: bool
  create_table :: "thrown option"
  readdirSync :: "thrown + string list"
  readFileSync :: "string \<Rightarrow> thrown + string"
  unsafe :: "string \<Rightarrow> nat \<Rightarrow> string option"
  insert_migration :: "string \<Rightarrow> thrown option"
  now :: "string \<Rightarrow> int"

text \<open>What the run does that can be seen from outside: its console lines and the
  statements it sends, in order.\<close>

datatype event =
    Starting
  | Connection_string string
  | Table_exists bool
  | Creating_table
  | Found nat
  | Running string
  | Unsafe string
  | Statement_error string string
  | Recorded string int
  | Completed
  | Migration_error thrown
  | End_connection

text \<open>How the promise of the async function ends.\<close>

datatype outcome = Resolved | Rejected

subsection \<open>The runner\<close>

text \<open>\<open>sqlContent.split(';').filter(stmt => stmt.trim())\<close>\<close>

definition statements :: "string \<Rightarrow> string list" where
  "statements sqlContent = filter (\<lambda>stmt. trim stmt \<noteq> []) (split CHR '';'' sqlContent)"

text \<open>\<open>file.split('_')[0]\<close>\<close>

definition hash_of :: "string \<Rightarrow> string" where
  "hash_of file = (case split CHR ''_'' file of [] \<Rightarrow> [] | p # ps \<Rightarrow> p)"

text \<open>
  The inner loop over the statements of the file \<open>f\<close>, from statement number \<open>i\<close> on. A
  statement that throws is caught here: two lines go to \<open>console.error\<close> (the first 100
  characters of the statement, and the message) and the loop goes on.
\<close>

fun run_statements :: "mig_env \<Rightarrow> string \<Rightarrow> nat \<Rightarrow> string list \<Rightarrow> event list" where
  "run_statements e f i [] = []"
| "run_statements e f i (statement # rest) =
     (if trim statement \<noteq> [] then
        Unsafe statement #
          (case unsafe e f i of
             None \<Rightarrow> []
           | Some m \<Rightarrow> [Statement_error (take 100 statement) m])
      else [])
     @ run_statements e f (Suc i) rest"

text \<open>
  The statement that records a file is
  \<open>INSERT INTO "__drizzle_migrations" (hash, created_at) VALUES (..) ON CONFLICT (hash) DO NOTHING\<close>.
  PostgreSQL accepts \<open>ON CONFLICT (hash)\<close> only when the table has a unique index or
  constraint on \<open>hash\<close>, and raises this error otherwise, whatever the rows are.
\<close>

definition no_unique_constraint :: thrown where
  "no_unique_constraint =
     Error ''there is no unique or exclusion constraint matching the ON CONFLICT specification''"

text \<open>The outcome of the recording \<open>INSERT\<close> for \<open>file\<close>; \<open>unique\<close> says whether the
  table has a unique index on \<open>hash\<close>.\<close>

definition record_migration :: "mig_env \<Rightarrow> bool \<Rightarrow> string \<Rightarrow> thrown option" where
  "record_migration e unique file =
     (if unique then insert_migration e file else Some no_unique_constraint)"

text \<open>
  The outer loop over the files. Reading a file or recording it may throw: both are
  outside the inner \<open>try\<close>, so the exception leaves the loop (\<open>Some t\<close>) and the files
  after it are not run.
\<close>

fun run_files :: "mig_env \<Rightarrow> bool \<Rightarrow> string list \<Rightarrow> event list \<times> thrown option" where
  "run_files e unique [] = ([], None)"
| "run_files e unique (file # files) =
     (case readFileSync e file of
        Inl t \<Rightarrow> ([Running file], Some t)
      | Inr sqlContent \<Rightarrow>
          (let evs = Running file # run_statements e file 0 (statements sqlContent)
           in case record_migration e unique file of
                Some t \<Rightarrow> (evs, Some t)
              | None \<Rightarrow>
                  (let (evs', r) = run_files e unique files
                   in (evs @ [Recorded (hash_of file) (now e file)] @ evs', r))))"

text \<open>The list of migration files: \<open>.filter(file => file.endsWith('.sql')).sort()\<close>\<close>

definition migration_files :: "string list \<Rightarrow> string list" where
  "migration_files names = sort (filter (\<lambda>file. endsWith file ''.sql'') names)"

text \<open>
  The body of the \<open>try\<close> block: the events, and the exception that leaves it, if any.
  When the table is missing the script creates it with
  \<open>id SERIAL PRIMARY KEY, hash text NOT NULL, created_at bigint\<close>: a table without a
  unique constraint on \<open>hash\<close>. A table that was already there keeps its own indexes.
  The statements of the migration files are taken not to change that.
\<close>

definition try_body :: "mig_env \<Rightarrow> event list \<times> thrown option" where
  "try_body e =
     (case exists_query e of
        Inl t \<Rightarrow> ([], Some t)
      | Inr ex \<Rightarrow>
          (let created =
                 (if \<not> ex then
                    (case create_table e of
                       Some t \<Rightarrow> ([Table_exists ex, Creating_table], Some t)
                     | None \<Rightarrow> ([Table_exists ex, Creating_table], None))
                  else ([Table_exists ex], None));
               unique = (if ex then hash_unique e else False)
           in case snd created of
                Some t \<Rightarrow> created
              | None \<Rightarrow>
                  (case readdirSync e of
                     Inl t \<Rightarrow> (fst created, Some t)
                   | Inr names \<Rightarrow>
                       (let files = migration_files names;
                            (evs, r) = run_files e unique files
                        in case r of
                             Some t \<Rightarrow> (fst created @ [Found (length files)] @ evs, Some t)
                           | None \<Rightarrow>
                               (fst created @ [Found (length files)] @ evs @ [Completed],
                                None)))))"

text \<open>
  The whole function. Two calls stand before the \<open>try\<close>: without \<open>DATABASE_URL\<close> the
  call of \<open>replace\<close> on \<open>undefined\<close> throws, and \<open>postgres(connectionString)\<close> throws on
  a connection string it cannot parse; either way the promise is rejected and nothing is
  run. Otherwise the \<open>catch\<close> logs an exception of the body, the \<open>finally\<close> closes the
  connection, and the promise resolves.
\<close>

definition runMigrations :: "mig_env \<Rightarrow> event list \<times> outcome" where
  "runMigrations e =
     (case DATABASE_URL e of
        None \<Rightarrow> ([Starting], Rejected)
      | Some url \<Rightarrow>
          (let connectionString = replace url ''postgresql://'' ''postgres://''
           in case postgres e connectionString of
                Some t \<Rightarrow> ([Starting, Connection_string connectionString], Rejected)
              | None \<Rightarrow>
                  (let (evs, r) = try_body e
                   in ([Starting, Connection_string connectionString] @ evs
                       @ (case r of None \<Rightarrow> [] | Some t \<Rightarrow> [Migration_error t])
                       @ [End_connection],
                       Resolved))))"

subsection \<open>Reading a trace\<close>

text \<open>The files run, the statements sent, the errors logged and the hashes recorded, each
  in the order of the trace.\<close>

fun files_run :: "event list \<Rightarrow> string list" where
  "files_run [] = []"
| "files_run (Running f # tr) = f # files_run tr"
| "files_run (ev # tr) = files_run tr"

fun statements_sent :: "event list \<Rightarrow> string list" where
  "statements_sent [] = []"
| "statements_sent (Unsafe s # tr) = s # statements_sent tr"
| "statements_sent (ev # tr) = statements_sent tr"

fun errors_logged :: "event list \<Rightarrow> string list" where
  "errors_logged [] = []"
| "errors_logged (Statement_error s m # tr) = m # errors_logged tr"
| "errors_logged (ev # tr) = errors_logged tr"

fun hashes_recorded :: "event list \<Rightarrow> string list" where
  "hashes_recorded [] = []"
| "hashes_recorded (Recorded h t # tr) = h # hashes_recorded tr"
| "hashes_recorded (ev # tr) = hashes_recorded tr"

text \<open>The messages of the statements of \<open>f\<close> that throw, from statement number \<open>i\<close> on.\<close>

fun failures :: "mig_env \<Rightarrow> string \<Rightarrow> nat \<Rightarrow> string list \<Rightarrow> string list" where
  "failures e f i [] = []"
| "failures e f i (s # ss) =
     (case unsafe e f i of None \<Rightarrow> [] | Some m \<Rightarrow> [m]) @ failures e f (Suc i) ss"

text \<open>
  Two environments for the examples. Both have a directory of two migration files and a
  text file, and a second statement of the first file that fails. In \<open>env_fresh\<close> the
  database is fresh: the migrations table is missing. In \<open>env_indexed\<close> the table is
  already there, with a unique index on \<open>hash\<close>.
\<close>

definition sql_files :: "string \<Rightarrow> string" where
  "sql_files f =
     (if f = ''0000_init.sql'' then ''CREATE TABLE a; BAD;  ;CREATE TABLE b;''
      else ''SELECT 1'')"

definition env_fresh :: mig_env where
  "env_fresh =
     \<lparr>DATABASE_URL = Some ''postgresql://u@h/db'',
      postgres = (\<lambda>cs. None),
      exists_query = Inr False,
      hash_unique = False,
      create_table = None,
      readdirSync = Inr [''0001_users.sql'', ''notes.txt'', ''0000_init.sql''],
      readFileSync = (\<lambda>f. Inr (sql_files f)),
      unsafe = (\<lambda>f i. if f = ''0000_init.sql'' \<and> i = 1 then Some ''syntax error'' else None),
      insert_migration = (\<lambda>f. None),
      now = (\<lambda>f. 1700000000000)\<rparr>"

definition env_indexed :: mig_env where
  "env_indexed = env_fresh\<lparr>exists_query := Inr True, hash_unique := True\<rparr>"


section \<open>The workflow engine of the specification: retries and loop regions\<close>

text \<open>
  The sources hold deployment scripts, database scripts, the health endpoint and the
  auth client. The Scheduler and the Executor Core that the specification describes are
  not among them, so the two mechanisms below are written from the words of the
  specification (sections 4.2, 4.3, 5 and 7), not from code.
\<close>

text \<open>The error taxonomy of section 7.\<close>

datatype error_kind =
    ValidationError
  | CapabilityResolutionError
  | HandlerError
  | TimeoutError
  | CancellationError
  | LoopIterationLimitExceeded

subsection \<open>The retry policy of a block\<close>

text \<open>
  What one invocation of a block's handler ends with: an output, or an error of some
  kind. A timeout is an error with its own kind; a handler that honours the cancellation
  signal ends with a cancellation error.
\<close>

datatype 'o attempt_result = Handler_ok 'o | Handler_failed error_kind

text \<open>
  The lifecycle events of one block: \<open>Started k\<close> is the dispatch of attempt \<open>k\<close>;
  \<open>Succeeded\<close> and \<open>Failed\<close> are the terminal events.
\<close>

datatype 'o block_event = Started nat | Succeeded 'o | Failed error_kind

text \<open>
  Section 7: the recoverable errors are \<open>HandlerError\<close> and \<open>TimeoutError\<close>; only they are
  retried under the block's policy.
\<close>

fun recoverable :: "error_kind \<Rightarrow> bool" where
  "recoverable HandlerError = True"
| "recoverable TimeoutError = True"
| "recoverable err = False"

text \<open>
  Modelled from the spec: the Executor Core's handling of one dispatched block, which is
  not among the sources. Section 5: the run's cancellation token is checked at each
  dispatch boundary, and a cancelled block is marked \<open>failed\<close> with a cancellation error
  kind; no dispatch follows a cancellation. Section 4.3: on handler success, mark
  \<open>succeeded\<close> and emit a completion event; on handler failure or timeout, apply the
  block's retry policy and, after exhausting the retries, mark \<open>failed\<close> and emit a
  failure event. Section 7: only a recoverable error is retried, and it is surfaced as a
  terminal failed event only once the retries are exhausted, so a failed attempt that is
  retried emits no event of its own; any other error fails the block at once.
  \<open>dispatch_attempts r k cancelled handler\<close> stands at the dispatch boundary of attempt
  \<open>k\<close> with \<open>r\<close> retries left; \<open>cancelled k\<close> says whether the run is cancelled at that
  boundary, and \<open>handler k\<close> is what the handler does on attempt \<open>k\<close>. The waiting between
  two attempts (the exponential backoff) takes time and emits nothing; it is not modelled.
\<close>

fun dispatch_attempts ::
  "nat \<Rightarrow> nat \<Rightarrow> (nat \<Rightarrow> bool) \<Rightarrow> (nat \<Rightarrow> 'o attempt_result) \<Rightarrow> 'o block_event list" where
  "dispatch_attempts 0 k cancelled handler =
     (if cancelled k then [Failed CancellationError]
      else Started k #
        (case handler k of
           Handler_ok out \<Rightarrow> [Succeeded out]
         | Handler_failed err \<Rightarrow> [Failed err]))"
| "dispatch_attempts (Suc retries_left) k cancelled handler =
     (if cancelled k then [Failed CancellationError]
      else Started k #
        (case handler k of
           Handler_ok out \<Rightarrow> [Succeeded out]
         | Handler_failed err \<Rightarrow>
             if recoverable err then dispatch_attempts retries_left (Suc k) cancelled handler
             else [Failed err]))"

text \<open>
  Modelled from the spec: the events of a block whose retry policy allows \<open>retries\<close>
  retries (0 by default: a single attempt). \<open>capability\<close> is the handler the Capability
  Registry resolves the block's capability name to; a name it does not know fails the
  block with \<open>CapabilityResolutionError\<close> (section 7), and no handler is dispatched.
  Attempts are numbered from 1.
\<close>

definition execute_block ::
  "nat \<Rightarrow> (nat \<Rightarrow> bool) \<Rightarrow> (nat \<Rightarrow> 'o attempt_result) option \<Rightarrow> 'o block_event list" where
  "execute_block retries cancelled capability =
     (case capability of
        None \<Rightarrow> [Failed CapabilityResolutionError]
      | Some handler \<Rightarrow> dispatch_attempts retries 1 cancelled handler)"









text \<open>
  For the examples: a run that is never cancelled, and three handlers. One fails twice
  and then succeeds, one always times out, and one ends its first attempt with a
  cancellation error.
\<close>

definition never_cancelled :: "nat \<Rightarrow> bool" where
  "never_cancelled k = False"

definition fails_twice :: "nat \<Rightarrow> string attempt_result" where
  "fails_twice k = (if k < 3 then Handler_failed HandlerError else Handler_ok ''done'')"



subsection \<open>The iteration cap of a loop region\<close>

text \<open>
  The iteration frame of an active loop region (section 3): the current index, which
  counts the iterations of the interior run so far, and the outputs accumulated, one per
  iteration.
\<close>

record 'o frame =
  index :: nat
  outputs :: "'o list"

text \<open>The frame after one more iteration, whose output is \<open>out\<close>.\<close>

definition next_frame :: "'o frame \<Rightarrow> 'o \<Rightarrow> 'o frame" where
  "next_frame fr out = \<lparr>index = Suc (index fr), outputs = outputs fr @ [out]\<rparr>"

text \<open>
  Modelled from the spec: the Scheduler's treatment of a loop region, which is not among
  the sources. Section 4.2, rule 3: the interior is scheduled per iteration; on reaching
  \<open>loop-end\<close> the continuation predicate is evaluated against the bindings of the
  iteration just completed; true re-enters the region, with the outputs accumulated into
  the per-loop result list, and false exits; the iteration cap is enforced, and exceeding
  it is a run failure (section 7: \<open>LoopIterationLimitExceeded\<close>, fatal to the run), not a
  silent exit. \<open>interior\<close> runs the interior blocks once on the bindings and gives the new
  bindings and the iteration's output; \<open>continue\<close> is the continuation predicate. The
  cap is checked at every attempt to enter the interior, the first entry included, so
  that the interior cannot run more than \<open>maxLoopIterations\<close> times. The result is the
  final frame with either the error or the bindings at the exit.
\<close>

function iterate_region ::
  "nat \<Rightarrow> ('b \<Rightarrow> 'b \<times> 'o) \<Rightarrow> ('b \<Rightarrow> bool) \<Rightarrow> 'o frame \<Rightarrow> 'b
     \<Rightarrow> 'o frame \<times> (error_kind + 'b)" where
  "iterate_region maxLoopIterations interior continue fr b =
     (if maxLoopIterations \<le> index fr then (fr, Inl LoopIterationLimitExceeded)
      else
        let (b', out) = interior b;
            fr' = next_frame fr out
        in if continue b' then iterate_region maxLoopIterations interior continue fr' b'
           else (fr', Inr b'))"
  by pat_completeness auto
termination
  by (relation "measure (\<lambda>(n, interior, continue, fr, b). n - index fr)")
    (auto simp: next_frame_def)

text \<open>
  Modelled from the spec: a loop from its first entry, where the iteration frame is
  pushed (index 0, no outputs).
\<close>

definition run_loop ::
  "nat \<Rightarrow> ('b \<Rightarrow> 'b \<times> 'o) \<Rightarrow> ('b \<Rightarrow> bool) \<Rightarrow> 'b \<Rightarrow> 'o frame \<times> (error_kind + 'b)" where
  "run_loop maxLoopIterations interior continue b =
     iterate_region maxLoopIterations interior continue \<lparr>index = 0, outputs = []\<rparr> b"

text \<open>The bindings after \<open>k\<close> iterations of the interior, started on \<open>b\<close>.\<close>

definition bindings_after :: "('b \<Rightarrow> 'b \<times> 'o) \<Rightarrow> nat \<Rightarrow> 'b \<Rightarrow> 'b" where
  "bindings_after interior k b = ((\<lambda>x. fst (interior x)) ^^ k) b"

text \<open>
  The loop of the specification's scenario: the bindings are the counter \<open>count\<close>, the
  interior increments it by 1, and the continuation predicate is \<open>count < 3\<close>.
\<close>

definition counting_interior :: "nat \<Rightarrow> nat \<times> nat" where
  "counting_interior c = (c + 1, c + 1)"

definition below_three :: "nat \<Rightarrow> bool" where
  "below_three c = (c < 3)"


section \<open>Properties of the health endpoint\<close>

lemma guarded_ok: "ok (guarded fb q) = (q = None)"
  by (cases q) (simp_all add: guarded_def)

lemma all_ok_run_checks:
  "all_ok (run_checks e) =
     (ping_workspace e = None \<and> select_workspace e = None \<and> select_permissions e = None
      \<and> select_workflow e = None \<and> select_workflow_blocks e = None)"
  by (simp add: all_ok_def run_checks_def guarded_ok)

lemma GET_no_exception:
  assumes "escaping e = None"
  shows "http_status (GET e) = (if all_ok (run_checks e) then 200 else 503)"
    and "body_status (GET e) = (if all_ok (run_checks e) then ''healthy'' else ''degraded'')"
    and "body_checks (GET e) = run_checks e"
  using assms by (simp_all add: GET_def Let_def)

lemma GET_exception:
  assumes "escaping e = Some t"
  shows "http_status (GET e) = 500" and "body_status (GET e) = ''unhealthy''"
  using assms by (simp_all add: GET_def)

lemma five_checks_ok_GET:
  assumes "escaping e = None"
  shows "five_checks_ok (GET e) = all_ok (run_checks e)"
proof -
  have "body_checks (GET e) = run_checks e"
    using assms by (rule GET_no_exception)
  then show ?thesis
    by (simp add: five_checks_ok_def recorded_ok_def all_ok_def run_checks_def)
qed

text \<open>The recorded checks say which query threw.\<close>

lemma recorded_checks_GET:
  assumes "escaping e = None"
  shows "recorded_ok (GET e) ''dbConnection'' = (ping_workspace e = None)"
    and "recorded_ok (GET e) ''table_workspace'' = (select_workspace e = None)"
    and "recorded_ok (GET e) ''table_permissions'' = (select_permissions e = None)"
    and "recorded_ok (GET e) ''table_workflow'' = (select_workflow e = None)"
    and "recorded_ok (GET e) ''table_workflow_blocks'' = (select_workflow_blocks e = None)"
proof -
  have b: "body_checks (GET e) = run_checks e"
    using assms by (rule GET_no_exception)
  show "recorded_ok (GET e) ''dbConnection'' = (ping_workspace e = None)"
    by (simp add: recorded_ok_def b run_checks_def guarded_ok)
  show "recorded_ok (GET e) ''table_workspace'' = (select_workspace e = None)"
    by (simp add: recorded_ok_def b run_checks_def guarded_ok)
  show "recorded_ok (GET e) ''table_permissions'' = (select_permissions e = None)"
    by (simp add: recorded_ok_def b run_checks_def guarded_ok)
  show "recorded_ok (GET e) ''table_workflow'' = (select_workflow e = None)"
    by (simp add: recorded_ok_def b run_checks_def guarded_ok)
  show "recorded_ok (GET e) ''table_workflow_blocks'' = (select_workflow_blocks e = None)"
    by (simp add: recorded_ok_def b run_checks_def guarded_ok)
qed

text \<open>
  Claim C8. When no exception escapes the handler body, the response is HTTP 200 with
  status \<open>healthy\<close> if and only if all five recorded checks (dbConnection,
  table_workspace, table_permissions, table_workflow, table_workflow_blocks) succeeded,
  and it is HTTP 503 with status \<open>degraded\<close> as soon as one of them failed. When an
  exception escapes the body, the response is HTTP 500 with status \<open>unhealthy\<close>.
\<close>

theorem health_GET_status:
  "(escaping e = None \<longrightarrow>
      ((http_status (GET e) = 200 \<and> body_status (GET e) = ''healthy'') = five_checks_ok (GET e))
      \<and> (\<not> five_checks_ok (GET e) \<longrightarrow>
            http_status (GET e) = 503 \<and> body_status (GET e) = ''degraded''))
   \<and> (escaping e \<noteq> None \<longrightarrow>
        http_status (GET e) = 500 \<and> body_status (GET e) = ''unhealthy'')"
proof (cases "escaping e")
  case None
  note st = GET_no_exception(1,2) [OF None] and five = five_checks_ok_GET [OF None]
  show ?thesis
  proof (cases "all_ok (run_checks e)")
    case True
    with None st five show ?thesis by simp
  next
    case False
    with None st five show ?thesis by simp
  qed
next
  case (Some t)
  then show ?thesis
    by (simp add: GET_exception)
qed

theorem health_GET_status_witness:
  "escaping env_healthy = None \<and> five_checks_ok (GET env_healthy)
   \<and> http_status (GET env_healthy) = 200 \<and> body_status (GET env_healthy) = ''healthy''
   \<and> escaping env_degraded = None \<and> \<not> five_checks_ok (GET env_degraded)
   \<and> http_status (GET env_degraded) = 503 \<and> body_status (GET env_degraded) = ''degraded''
   \<and> escaping env_unhealthy \<noteq> None
   \<and> http_status (GET env_unhealthy) = 500 \<and> body_status (GET env_unhealthy) = ''unhealthy''"
proof -
  have h: "escaping env_healthy = None" "five_checks_ok (GET env_healthy)"
    by (simp_all add: env_healthy_def five_checks_ok_def recorded_ok_def GET_def
        run_checks_def guarded_def all_ok_def)
  have d: "escaping env_degraded = None" "\<not> five_checks_ok (GET env_degraded)"
    by (simp_all add: env_degraded_def env_healthy_def five_checks_ok_def recorded_ok_def
        GET_def run_checks_def guarded_def all_ok_def)
  have u: "escaping env_unhealthy \<noteq> None"
    by (simp add: env_unhealthy_def env_healthy_def)
  show ?thesis
    using h d u health_GET_status [of env_healthy] health_GET_status [of env_degraded]
      health_GET_status [of env_unhealthy]
    by simp
qed


section \<open>Properties of the base URL\<close>

lemma truthy_the: "truthy v \<Longrightarrow> the v \<noteq> []"
  by (cases v) (simp_all add: truthy_def)

lemma truthy_Some_the: "truthy v \<Longrightarrow> v = Some (the v)"
  by (cases v) (simp_all add: truthy_def)

lemma preview_block_nonempty: "preview_block e = Some u \<Longrightarrow> u \<noteq> []"
  by (auto simp: preview_block_def split: if_splits)

lemma production_block_nonempty: "production_block e = Some u \<Longrightarrow> u \<noteq> []"
  by (auto simp: production_block_def truthy_def split: if_splits option.splits)

lemma generic_block_nonempty: "generic_block e \<noteq> []"
  by (simp add: generic_block_def truthy_the)

lemma getBaseURL_nonempty: "getBaseURL e \<noteq> []"
proof (cases "truthy (browser_origin e)")
  case True
  then show ?thesis by (simp add: getBaseURL_def truthy_the)
next
  case False
  then show ?thesis
    by (auto simp: getBaseURL_def preview_block_nonempty production_block_nonempty
        generic_block_nonempty split: option.splits)
qed

lemma outside_explicit_blocks:
  assumes "\<not> explicit_vercel_env e"
  shows "preview_block e = None" and "production_block e = None"
  using assms by (simp_all add: explicit_vercel_env_def preview_block_def production_block_def)

text \<open>
  Inside the explicit blocks: for \<open>preview\<close> and \<open>development\<close> a Vercel URL that is set
  wins over the other variables; for \<open>production\<close>, and for \<open>preview\<close> and \<open>development\<close>
  without a Vercel URL, the result is that of the generic resolution.
\<close>

lemma getBaseURL_preview:
  assumes "\<not> truthy (browser_origin e)"
    and "VERCEL_ENV e = Some ''preview'' \<or> VERCEL_ENV e = Some ''development''"
  shows "getBaseURL e =
    (if truthy (NEXT_PUBLIC_VERCEL_URL e) then ''https://'' @ the (NEXT_PUBLIC_VERCEL_URL e)
     else generic_block e)"
  using assms by (auto simp: getBaseURL_def preview_block_def production_block_def)

lemma getBaseURL_production:
  assumes "\<not> truthy (browser_origin e)" and "VERCEL_ENV e = Some ''production''"
  shows "getBaseURL e = generic_block e"
proof -
  from assms(2) have "preview_block e = None"
    by (simp add: preview_block_def)
  moreover from assms(2) have "production_block e = None \<or> production_block e = Some (generic_block e)"
    by (auto simp: production_block_def generic_block_def truthy_Some_the [symmetric])
  ultimately show ?thesis
    using assms(1) by (auto simp: getBaseURL_def)
qed

text \<open>
  Claim C9. \<open>getBaseURL\<close> never returns the empty string. It returns the browser's
  \<open>window.location.origin\<close> when that is available. Otherwise, when \<open>VERCEL_ENV\<close> selects
  neither of the explicit Vercel blocks, it returns \<open>BETTER_AUTH_URL\<close> if set, else
  \<open>NEXT_PUBLIC_APP_URL\<close> if set, else \<open>https://\<close> followed by \<open>NEXT_PUBLIC_VERCEL_URL\<close> if
  set, else \<open>http://localhost:3000\<close>. A variable counts as set when JavaScript takes it
  for true: defined and not the empty string.
\<close>

theorem getBaseURL_resolution:
  "getBaseURL e \<noteq> []
   \<and> (truthy (browser_origin e) \<longrightarrow> browser_origin e = Some (getBaseURL e))
   \<and> (\<not> truthy (browser_origin e) \<and> \<not> explicit_vercel_env e \<longrightarrow>
        getBaseURL e =
          (if truthy (BETTER_AUTH_URL e) then the (BETTER_AUTH_URL e)
           else if truthy (NEXT_PUBLIC_APP_URL e) then the (NEXT_PUBLIC_APP_URL e)
           else if truthy (NEXT_PUBLIC_VERCEL_URL e)
             then ''https://'' @ the (NEXT_PUBLIC_VERCEL_URL e)
           else ''http://localhost:3000''))"
proof (intro conjI impI)
  show "getBaseURL e \<noteq> []"
    by (rule getBaseURL_nonempty)
next
  assume "truthy (browser_origin e)"
  then show "browser_origin e = Some (getBaseURL e)"
    by (simp add: getBaseURL_def truthy_Some_the [symmetric])
next
  assume a: "\<not> truthy (browser_origin e) \<and> \<not> explicit_vercel_env e"
  then have "getBaseURL e = generic_block e"
    by (simp add: getBaseURL_def outside_explicit_blocks)
  then show "getBaseURL e =
      (if truthy (BETTER_AUTH_URL e) then the (BETTER_AUTH_URL e)
       else if truthy (NEXT_PUBLIC_APP_URL e) then the (NEXT_PUBLIC_APP_URL e)
       else if truthy (NEXT_PUBLIC_VERCEL_URL e)
         then ''https://'' @ the (NEXT_PUBLIC_VERCEL_URL e)
       else ''http://localhost:3000'')"
    by (simp add: generic_block_def)
qed

theorem getBaseURL_resolution_witness:
  "truthy (browser_origin env_browser) \<and> getBaseURL env_browser = ''https://sim.example''
   \<and> \<not> truthy (browser_origin env_selfhosted) \<and> \<not> explicit_vercel_env env_selfhosted
   \<and> getBaseURL env_selfhosted = ''https://app.example''"
proof -
  have b: "truthy (browser_origin env_browser)"
    "browser_origin env_browser = Some ''https://sim.example''"
    by (simp_all add: env_browser_def browser_origin_def window_origin_def truthy_def)
  have s: "\<not> truthy (browser_origin env_selfhosted)" "\<not> explicit_vercel_env env_selfhosted"
    "\<not> truthy (BETTER_AUTH_URL env_selfhosted)" "truthy (NEXT_PUBLIC_APP_URL env_selfhosted)"
    "NEXT_PUBLIC_APP_URL env_selfhosted = Some ''https://app.example''"
    by (simp_all add: env_selfhosted_def browser_origin_def explicit_vercel_env_def truthy_def)
  show ?thesis
    using b s getBaseURL_resolution [of env_browser] getBaseURL_resolution [of env_selfhosted]
    by simp
qed


section \<open>Properties of the migration runner\<close>

lemma files_run_append: "files_run (a @ b) = files_run a @ files_run b"
  by (induction a rule: files_run.induct) simp_all

lemma statements_sent_append: "statements_sent (a @ b) = statements_sent a @ statements_sent b"
  by (induction a rule: statements_sent.induct) simp_all

lemma errors_logged_append: "errors_logged (a @ b) = errors_logged a @ errors_logged b"
  by (induction a rule: errors_logged.induct) simp_all

lemma hashes_recorded_append: "hashes_recorded (a @ b) = hashes_recorded a @ hashes_recorded b"
  by (induction a rule: hashes_recorded.induct) simp_all

lemma run_statements_files_run: "files_run (run_statements e f i ss) = []"
  by (induction ss arbitrary: i) (simp_all add: files_run_append split: option.splits)

lemma run_statements_hashes: "hashes_recorded (run_statements e f i ss) = []"
  by (induction ss arbitrary: i) (simp_all add: hashes_recorded_append split: option.splits)

lemma run_statements_sent:
  "statements_sent (run_statements e f i ss) = filter (\<lambda>s. trim s \<noteq> []) ss"
  by (induction ss arbitrary: i) (simp_all add: statements_sent_append split: option.splits)

lemma run_statements_errors:
  "\<forall>s \<in> set ss. trim s \<noteq> [] \<Longrightarrow> errors_logged (run_statements e f i ss) = failures e f i ss"
  by (induction ss arbitrary: i) (simp_all add: errors_logged_append split: option.splits)

lemma statements_nonblank: "\<forall>s \<in> set (statements c). trim s \<noteq> []"
  by (simp add: statements_def)

lemma filter_statements: "filter (\<lambda>s. trim s \<noteq> []) (statements c) = statements c"
  by (simp add: statements_def)

lemma migration_files_sorted: "sorted (migration_files names)"
  by (simp add: migration_files_def)

lemma migration_files_set:
  "set (migration_files names) = {f \<in> set names. endsWith f ''.sql''}"
  by (auto simp add: migration_files_def)

subsection \<open>On a table with a unique index on the hash\<close>

lemma run_files_all:
  assumes "\<forall>f \<in> set fs. readFileSync e f = Inr (sql f) \<and> insert_migration e f = None"
  shows "snd (run_files e True fs) = None
    \<and> files_run (fst (run_files e True fs)) = fs
    \<and> statements_sent (fst (run_files e True fs)) = concat (map (\<lambda>f. statements (sql f)) fs)
    \<and> errors_logged (fst (run_files e True fs))
        = concat (map (\<lambda>f. failures e f 0 (statements (sql f))) fs)
    \<and> hashes_recorded (fst (run_files e True fs)) = map hash_of fs"
  using assms
proof (induction fs)
  case Nil
  then show ?case by simp
next
  case (Cons f fs)
  then have ih: "snd (run_files e True fs) = None"
    "files_run (fst (run_files e True fs)) = fs"
    "statements_sent (fst (run_files e True fs)) = concat (map (\<lambda>f. statements (sql f)) fs)"
    "errors_logged (fst (run_files e True fs))
      = concat (map (\<lambda>f. failures e f 0 (statements (sql f))) fs)"
    "hashes_recorded (fst (run_files e True fs)) = map hash_of fs"
    by simp_all
  from Cons.prems have f: "readFileSync e f = Inr (sql f)" "record_migration e True f = None"
    by (simp_all add: record_migration_def)
  obtain evs r where rf: "run_files e True fs = (evs, r)"
    by (cases "run_files e True fs")
  from ih rf f show ?case
    by (simp add: files_run_append statements_sent_append errors_logged_append
        hashes_recorded_append run_statements_files_run run_statements_hashes
        run_statements_sent run_statements_errors statements_nonblank filter_statements)
qed

text \<open>
  When the migrations table is already there with a unique index on \<open>hash\<close>, and the run
  reaches the loop and can read and record every file, the runner does what the claim
  says, whatever the statements do when they are sent: the files run are the \<open>.sql\<close>
  files in ascending lexicographic order, every statement of every file is sent, each
  failure is logged, and every file is recorded.
\<close>

lemma runMigrations_on_indexed_table:
  assumes "DATABASE_URL e = Some url"
    and "postgres e (replace url ''postgresql://'' ''postgres://'') = None"
    and "exists_query e = Inr True"
    and "hash_unique e"
    and "readdirSync e = Inr names"
    and "\<forall>f \<in> set (migration_files names).
           readFileSync e f = Inr (sql f) \<and> insert_migration e f = None"
  shows "files_run (fst (runMigrations e)) = migration_files names
    \<and> sorted (files_run (fst (runMigrations e)))
    \<and> statements_sent (fst (runMigrations e)) =
        concat (map (\<lambda>f. statements (sql f)) (migration_files names))
    \<and> errors_logged (fst (runMigrations e)) =
        concat (map (\<lambda>f. failures e f 0 (statements (sql f))) (migration_files names))
    \<and> hashes_recorded (fst (runMigrations e)) = map hash_of (migration_files names)"
proof -
  let ?fs = "migration_files names"
  note rf = run_files_all [OF assms(6)]
  obtain evs r where p: "run_files e True ?fs = (evs, r)"
    by (cases "run_files e True ?fs")
  with rf have r: "r = None" by simp
  from assms(1-5) p r
  have tr: "fst (runMigrations e) =
      [Starting, Connection_string (replace url ''postgresql://'' ''postgres://''),
       Table_exists True, Found (length ?fs)] @ evs @ [Completed, End_connection]"
    by (simp add: runMigrations_def try_body_def)
  from rf p have evs: "files_run evs = ?fs"
    "statements_sent evs = concat (map (\<lambda>f. statements (sql f)) ?fs)"
    "errors_logged evs = concat (map (\<lambda>f. failures e f 0 (statements (sql f))) ?fs)"
    "hashes_recorded evs = map hash_of ?fs"
    by simp_all
  have fr: "files_run (fst (runMigrations e)) = ?fs"
    by (simp add: tr files_run_append evs)
  have ss: "statements_sent (fst (runMigrations e)) = concat (map (\<lambda>f. statements (sql f)) ?fs)"
    by (simp add: tr statements_sent_append evs)
  have el: "errors_logged (fst (runMigrations e)) =
      concat (map (\<lambda>f. failures e f 0 (statements (sql f))) ?fs)"
    by (simp add: tr errors_logged_append evs)
  have hr: "hashes_recorded (fst (runMigrations e)) = map hash_of ?fs"
    by (simp add: tr hashes_recorded_append evs)
  from fr ss el hr show ?thesis
    by (simp add: migration_files_sorted)
qed

subsection \<open>On a table without a unique index on the hash\<close>

text \<open>
  Without the unique index the first recording \<open>INSERT\<close> throws. It is outside the inner
  \<open>try\<close>, so the loop ends there: at most one file is run and none is recorded.
\<close>

lemma run_files_no_unique:
  "hashes_recorded (fst (run_files e False fs)) = []
   \<and> length (files_run (fst (run_files e False fs))) \<le> 1
   \<and> files_run (fst (run_files e False fs)) = take 1 fs"
  by (cases fs)
    (simp_all add: record_migration_def run_statements_files_run run_statements_hashes
      files_run_append hashes_recorded_append split: sum.splits)

lemma run_files_no_unique_stops:
  assumes "readFileSync e f = Inr c"
  shows "run_files e False (f # fs)
    = (Running f # run_statements e f 0 (statements c), Some no_unique_constraint)"
  using assms by (simp add: record_migration_def)

text \<open>
  A database without the migrations table is such a case: the script creates the table
  itself, without a unique constraint. Whatever the directory holds, no migration is
  recorded, and at most the first file is run.
\<close>

lemma fresh_database_records_nothing:
  assumes "exists_query e = Inr False"
  shows "hashes_recorded (fst (runMigrations e)) = []"
    and "length (files_run (fst (runMigrations e))) \<le> 1"
proof -
  have a: "hashes_recorded (fst (try_body e)) = []
      \<and> length (files_run (fst (try_body e))) \<le> 1"
  proof (cases "create_table e")
    case (Some t)
    with assms show ?thesis by (simp add: try_body_def)
  next
    case None
    show ?thesis
    proof (cases "readdirSync e")
      case (Inl t)
      with assms None show ?thesis by (simp add: try_body_def)
    next
      case (Inr names)
      obtain evs r where p: "run_files e False (migration_files names) = (evs, r)"
        by (cases "run_files e False (migration_files names)")
      from run_files_no_unique [of e "migration_files names"] p
      have q: "hashes_recorded evs = []" "length (files_run evs) \<le> 1"
        by simp_all
      from assms None Inr p q show ?thesis
        by (cases r) (simp_all add: try_body_def files_run_append hashes_recorded_append)
    qed
  qed
  obtain evs r where tb: "try_body e = (evs, r)"
    by (cases "try_body e")
  with a have b: "hashes_recorded evs = []" "length (files_run evs) \<le> 1"
    by simp_all
  have c: "hashes_recorded (case r of None \<Rightarrow> [] | Some t \<Rightarrow> [Migration_error t]) = []"
    "files_run (case r of None \<Rightarrow> [] | Some t \<Rightarrow> [Migration_error t]) = []"
    by (cases r; simp)+
  from tb b c show "hashes_recorded (fst (runMigrations e)) = []"
    by (simp add: runMigrations_def Let_def hashes_recorded_append
        split: option.splits)
  from tb b c show "length (files_run (fst (runMigrations e))) \<le> 1"
    by (simp add: runMigrations_def Let_def files_run_append
        split: option.splits)
qed

subsection \<open>The two example runs\<close>

lemma mf:
  "migration_files [''0001_users.sql'', ''notes.txt'', ''0000_init.sql'']
     = [''0000_init.sql'', ''0001_users.sql'']"
  by code_simp

lemma st0:
  "statements (sql_files ''0000_init.sql'') = [''CREATE TABLE a'', '' BAD'', ''CREATE TABLE b'']"
  by code_simp

lemma st1: "statements (sql_files ''0001_users.sql'') = [''SELECT 1'']"
  by code_simp

lemma hash_examples: "hash_of ''0000_init.sql'' = ''0000''" "hash_of ''0001_users.sql'' = ''0001''"
  by code_simp+

lemma connection_example: "replace ''postgresql://u@h/db'' ''postgresql://'' ''postgres://'' = ''postgres://u@h/db''"
  by code_simp

lemma trim_examples:
  "trim ''CREATE TABLE a'' \<noteq> []" "trim '' BAD'' \<noteq> []" "trim ''CREATE TABLE b'' \<noteq> []"
  "trim ''SELECT 1'' \<noteq> []"
  by code_simp+

lemma env_indexed_run:
  "runMigrations env_indexed =
     ([Starting, Connection_string ''postgres://u@h/db'', Table_exists True, Found 2,
       Running ''0000_init.sql'', Unsafe ''CREATE TABLE a'', Unsafe '' BAD'',
       Statement_error '' BAD'' ''syntax error'', Unsafe ''CREATE TABLE b'',
       Recorded ''0000'' 1700000000000,
       Running ''0001_users.sql'', Unsafe ''SELECT 1'', Recorded ''0001'' 1700000000000,
       Completed, End_connection],
      Resolved)"
  by (simp add: runMigrations_def try_body_def env_indexed_def env_fresh_def mf st0 st1
      hash_examples connection_example record_migration_def trim_examples
      del: replace.simps)

text \<open>
  Claim C10 on a fresh database. The directory holds the migration files
  \<open>0000_init.sql\<close> and \<open>0001_users.sql\<close>, in that order. The run sends every statement of
  the first file, also after the one that failed, and logs the failure. Then the
  recording \<open>INSERT\<close> throws, the outer \<open>catch\<close> logs it and the run ends: the first file
  is not recorded, and the second file is neither run nor recorded.
\<close>

theorem runMigrations_fresh_database:
  "migration_files [''0001_users.sql'', ''notes.txt'', ''0000_init.sql'']
     = [''0000_init.sql'', ''0001_users.sql'']
   \<and> runMigrations env_fresh =
       ([Starting, Connection_string ''postgres://u@h/db'', Table_exists False,
         Creating_table, Found 2,
         Running ''0000_init.sql'', Unsafe ''CREATE TABLE a'', Unsafe '' BAD'',
         Statement_error '' BAD'' ''syntax error'', Unsafe ''CREATE TABLE b'',
         Migration_error no_unique_constraint, End_connection],
        Resolved)
   \<and> files_run (fst (runMigrations env_fresh)) = [''0000_init.sql'']
   \<and> hashes_recorded (fst (runMigrations env_fresh)) = []"
proof -
  have run: "runMigrations env_fresh =
       ([Starting, Connection_string ''postgres://u@h/db'', Table_exists False,
         Creating_table, Found 2,
         Running ''0000_init.sql'', Unsafe ''CREATE TABLE a'', Unsafe '' BAD'',
         Statement_error '' BAD'' ''syntax error'', Unsafe ''CREATE TABLE b'',
         Migration_error no_unique_constraint, End_connection],
        Resolved)"
    by (simp add: runMigrations_def try_body_def env_fresh_def mf st0
        connection_example record_migration_def trim_examples del: replace.simps)
  show ?thesis
    by (simp add: mf run)
qed


section \<open>Properties of the retry policy\<close>
















lemma fails_twice_run:
  "execute_block 2 never_cancelled (Some fails_twice)
     = [Started 1, Started 2, Started 3, Succeeded ''done'']"
  by (simp add: execute_block_def numeral_2_eq_2 fails_twice_def never_cancelled_def)






section \<open>Properties of the iteration cap\<close>

declare iterate_region.simps [simp del]

lemma bindings_after_Suc: "bindings_after interior (Suc k) b = bindings_after interior k (fst (interior b))"
  by (simp only: bindings_after_def funpow_Suc_right o_apply)

lemma bindings_after_0: "bindings_after interior 0 b = b"
  by (simp add: bindings_after_def)

lemma iterate_limit:
  "n \<le> index fr \<Longrightarrow> iterate_region n interior continue fr b = (fr, Inl LoopIterationLimitExceeded)"
  by (subst iterate_region.simps) simp

lemma iterate_exit:
  "index fr < n \<Longrightarrow> \<not> continue (fst (interior b)) \<Longrightarrow>
   iterate_region n interior continue fr b = (next_frame fr (snd (interior b)), Inr (fst (interior b)))"
  by (subst iterate_region.simps) (simp add: case_prod_beta)

lemma iterate_again:
  "index fr < n \<Longrightarrow> continue (fst (interior b)) \<Longrightarrow>
   iterate_region n interior continue fr b =
     iterate_region n interior continue (next_frame fr (snd (interior b))) (fst (interior b))"
  by (subst iterate_region.simps) (simp add: case_prod_beta)

lemma index_next_frame: "index (next_frame fr out) = Suc (index fr)"
  by (simp add: next_frame_def)

lemma outputs_next_frame: "length (outputs (next_frame fr out)) = Suc (length (outputs fr))"
  by (simp add: next_frame_def)

text \<open>The three ways one step of the region can go.\<close>

lemma iterate_cases:
  obtains (limit) "n \<le> index fr"
  | (exit) "index fr < n" "\<not> continue (fst (interior b))"
  | (again) "index fr < n" "continue (fst (interior b))"
  by (cases "n \<le> index fr"; cases "continue (fst (interior b))") auto

lemma iterate_index_bounds:
  "index fr \<le> index (fst (iterate_region n interior continue fr b))
   \<and> index (fst (iterate_region n interior continue fr b)) \<le> max n (index fr)"
proof (induction "n - index fr" arbitrary: fr b)
  case 0
  then have "n \<le> index fr" by simp
  then show ?case by (simp add: iterate_limit)
next
  case (Suc d)
  then have lt: "index fr < n" by simp
  show ?case
  proof (cases "continue (fst (interior b))")
    case False
    with lt show ?thesis by (simp add: iterate_exit index_next_frame)
  next
    case True
    let ?fr = "next_frame fr (snd (interior b))"
    from Suc.hyps(2) have "d = n - index ?fr" by (simp add: index_next_frame)
    from Suc.hyps(1) [OF this, of "fst (interior b)"] lt True show ?thesis
      by (simp add: iterate_again index_next_frame)
  qed
qed

lemma iterate_outputs:
  "length (outputs (fst (iterate_region n interior continue fr b))) + index fr
     = length (outputs fr) + index (fst (iterate_region n interior continue fr b))"
proof (induction "n - index fr" arbitrary: fr b)
  case 0
  then have "n \<le> index fr" by simp
  then show ?case by (simp add: iterate_limit)
next
  case (Suc d)
  then have lt: "index fr < n" by simp
  show ?case
  proof (cases "continue (fst (interior b))")
    case False
    with lt show ?thesis by (simp add: iterate_exit index_next_frame outputs_next_frame)
  next
    case True
    let ?fr = "next_frame fr (snd (interior b))"
    from Suc.hyps(2) have "d = n - index ?fr" by (simp add: index_next_frame)
    from Suc.hyps(1) [OF this, of "fst (interior b)"] lt True show ?thesis
      by (simp add: iterate_again index_next_frame outputs_next_frame)
  qed
qed

text \<open>The run ends with the limit error exactly when the predicate held after each of the
  iterations that the cap still allowed.\<close>

lemma iterate_limit_iff:
  "(snd (iterate_region n interior continue fr b) = Inl LoopIterationLimitExceeded)
     = (\<forall>k. 1 \<le> k \<and> k \<le> n - index fr \<longrightarrow> continue (bindings_after interior k b))"
proof (induction "n - index fr" arbitrary: fr b)
  case 0
  then have "n \<le> index fr" by simp
  then show ?case by (simp add: iterate_limit)
next
  case (Suc d)
  then have lt: "index fr < n" by simp
  show ?case
  proof (cases "continue (fst (interior b))")
    case False
    then have "\<not> continue (bindings_after interior 1 b)"
      by (simp add: bindings_after_Suc bindings_after_0)
    moreover from lt have "(1::nat) \<le> 1 \<and> 1 \<le> n - index fr" by simp
    ultimately have "\<not> (\<forall>k. 1 \<le> k \<and> k \<le> n - index fr \<longrightarrow> continue (bindings_after interior k b))"
      by blast
    with lt False show ?thesis by (simp add: iterate_exit)
  next
    case True
    let ?fr = "next_frame fr (snd (interior b))"
    let ?b = "fst (interior b)"
    from Suc.hyps(2) have d: "d = n - index ?fr" by (simp add: index_next_frame)
    have ih: "(snd (iterate_region n interior continue ?fr ?b) = Inl LoopIterationLimitExceeded)
      = (\<forall>k. 1 \<le> k \<and> k \<le> d \<longrightarrow> continue (bindings_after interior k ?b))"
      using Suc.hyps(1) [OF d, of ?b] d by simp
    have "(\<forall>k. 1 \<le> k \<and> k \<le> Suc d \<longrightarrow> continue (bindings_after interior k b))
      = (\<forall>k. 1 \<le> k \<and> k \<le> d \<longrightarrow> continue (bindings_after interior k ?b))"
    proof
      assume a: "\<forall>k. 1 \<le> k \<and> k \<le> Suc d \<longrightarrow> continue (bindings_after interior k b)"
      show "\<forall>k. 1 \<le> k \<and> k \<le> d \<longrightarrow> continue (bindings_after interior k ?b)"
      proof (intro allI impI)
        fix k assume "1 \<le> k \<and> k \<le> d"
        then have "1 \<le> Suc k \<and> Suc k \<le> Suc d" by simp
        with a have "continue (bindings_after interior (Suc k) b)" by blast
        then show "continue (bindings_after interior k ?b)" by (simp only: bindings_after_Suc)
      qed
    next
      assume a: "\<forall>k. 1 \<le> k \<and> k \<le> d \<longrightarrow> continue (bindings_after interior k ?b)"
      show "\<forall>k. 1 \<le> k \<and> k \<le> Suc d \<longrightarrow> continue (bindings_after interior k b)"
      proof (intro allI impI)
        fix k assume k: "1 \<le> k \<and> k \<le> Suc d"
        then obtain j where j: "k = Suc j" by (cases k) auto
        show "continue (bindings_after interior k b)"
        proof (cases j)
          case 0
          with j True show ?thesis by (simp add: bindings_after_Suc bindings_after_0)
        next
          case (Suc i)
          with k j have "1 \<le> j \<and> j \<le> d" by simp
          with a have "continue (bindings_after interior j ?b)" by blast
          with j show ?thesis by (simp only: bindings_after_Suc)
        qed
      qed
    qed
    with ih Suc.hyps(2) lt True show ?thesis
      by (simp add: iterate_again)
  qed
qed

text \<open>The only error of a loop region is the limit error.\<close>

lemma iterate_error_kind:
  "snd (iterate_region n interior continue fr b) = Inl err \<Longrightarrow> err = LoopIterationLimitExceeded"
proof (induction "n - index fr" arbitrary: fr b)
  case 0
  then have "n \<le> index fr" by simp
  with 0 show ?case by (simp add: iterate_limit)
next
  case (Suc d)
  then have lt: "index fr < n" by simp
  show ?case
  proof (cases "continue (fst (interior b))")
    case False
    with lt Suc.prems show ?thesis by (simp add: iterate_exit)
  next
    case True
    let ?fr = "next_frame fr (snd (interior b))"
    from Suc.hyps(2) have d: "d = n - index ?fr" by (simp add: index_next_frame)
    from Suc.prems lt True have "snd (iterate_region n interior continue ?fr (fst (interior b))) = Inl err"
      by (simp add: iterate_again)
    with Suc.hyps(1) [OF d] show ?thesis by blast
  qed
qed

text \<open>When the run ends with an error, the interior has run exactly up to the cap.\<close>

lemma iterate_limit_index:
  "snd (iterate_region n interior continue fr b) = Inl err \<Longrightarrow> index fr \<le> n \<Longrightarrow>
   index (fst (iterate_region n interior continue fr b)) = n"
proof (induction "n - index fr" arbitrary: fr b)
  case 0
  then have "n \<le> index fr" by simp
  with 0 show ?case by (simp add: iterate_limit)
next
  case (Suc d)
  then have lt: "index fr < n" by simp
  show ?case
  proof (cases "continue (fst (interior b))")
    case False
    with lt Suc.prems show ?thesis by (simp add: iterate_exit)
  next
    case True
    let ?fr = "next_frame fr (snd (interior b))"
    from Suc.hyps(2) have d: "d = n - index ?fr" by (simp add: index_next_frame)
    from lt have le: "index ?fr \<le> n" by (simp add: index_next_frame)
    from Suc.prems lt True have "snd (iterate_region n interior continue ?fr (fst (interior b))) = Inl err"
      by (simp add: iterate_again)
    from Suc.hyps(1) [OF d this le] lt True show ?thesis by (simp add: iterate_again)
  qed
qed

text \<open>A normal exit happens after at least one iteration, on the bindings of the last
  iteration, and the continuation predicate is false on them.\<close>

lemma iterate_exit_bindings:
  "snd (iterate_region n interior continue fr b) = Inr b' \<Longrightarrow>
   \<not> continue b' \<and> index fr < index (fst (iterate_region n interior continue fr b))
   \<and> b' = bindings_after interior (index (fst (iterate_region n interior continue fr b)) - index fr) b"
proof (induction "n - index fr" arbitrary: fr b)
  case 0
  then have "n \<le> index fr" by simp
  with 0 show ?case by (simp add: iterate_limit)
next
  case (Suc d)
  then have lt: "index fr < n" by simp
  show ?case
  proof (cases "continue (fst (interior b))")
    case False
    with lt Suc.prems show ?thesis
      by (auto simp add: iterate_exit index_next_frame bindings_after_Suc bindings_after_0)
  next
    case True
    let ?fr = "next_frame fr (snd (interior b))"
    let ?R = "iterate_region n interior continue ?fr (fst (interior b))"
    from Suc.hyps(2) have d: "d = n - index ?fr" by (simp add: index_next_frame)
    from Suc.prems lt True have "snd ?R = Inr b'"
      by (simp add: iterate_again)
    note ih = Suc.hyps(1) [OF d this, unfolded index_next_frame]
    note nc = ih [THEN conjunct1] and l = ih [THEN conjunct2, THEN conjunct1]
      and bb = ih [THEN conjunct2, THEN conjunct2]
    from l have e: "index (fst ?R) - index fr = Suc (index (fst ?R) - Suc (index fr))" by simp
    have "b' = bindings_after interior (index (fst ?R) - index fr) b"
      by (simp only: e bindings_after_Suc) (rule bb)
    with nc l lt True show ?thesis by (simp add: iterate_again)
  qed
qed

text \<open>
  Claim C3. For a run configured with \<open>maxLoopIterations = N\<close>: the interior of a loop
  region runs at most \<open>N\<close> times (the final index, which is also the number of outputs
  accumulated, is at most \<open>N\<close>); when the continuation predicate holds after each of the
  first \<open>N\<close> iterations, so that an iteration number \<open>N + 1\<close> is attempted, the run fails
  with \<open>LoopIterationLimitExceeded\<close> after exactly \<open>N\<close> iterations; and the loop exits
  normally only on bindings for which the continuation predicate is false, never as a
  silent way out of the cap.
\<close>

theorem loop_iteration_cap:
  fixes interior :: "'b \<Rightarrow> 'b \<times> 'o"
  shows "index (fst (run_loop N interior continue b)) \<le> N
   \<and> length (outputs (fst (run_loop N interior continue b))) = index (fst (run_loop N interior continue b))
   \<and> ((\<forall>k. 1 \<le> k \<and> k \<le> N \<longrightarrow> continue (bindings_after interior k b)) \<longrightarrow>
        snd (run_loop N interior continue b) = Inl LoopIterationLimitExceeded
        \<and> index (fst (run_loop N interior continue b)) = N)
   \<and> (\<forall>b'. snd (run_loop N interior continue b) = Inr b' \<longrightarrow>
        \<not> continue b' \<and> 1 \<le> index (fst (run_loop N interior continue b))
        \<and> b' = bindings_after interior (index (fst (run_loop N interior continue b))) b)"
proof (intro conjI impI allI)
  let ?fr = "\<lparr>index = 0, outputs = []\<rparr> :: 'o frame"
  show "index (fst (run_loop N interior continue b)) \<le> N"
    using iterate_index_bounds [of ?fr N interior continue b] by (simp add: run_loop_def)
  show "length (outputs (fst (run_loop N interior continue b))) = index (fst (run_loop N interior continue b))"
    using iterate_outputs [of N interior continue ?fr b] by (simp add: run_loop_def)
  {
    assume a: "\<forall>k. 1 \<le> k \<and> k \<le> N \<longrightarrow> continue (bindings_after interior k b)"
    then show l: "snd (run_loop N interior continue b) = Inl LoopIterationLimitExceeded"
      using iterate_limit_iff [of N interior continue ?fr b] by (simp add: run_loop_def)
    then show "index (fst (run_loop N interior continue b)) = N"
      using iterate_limit_index [of N interior continue ?fr b LoopIterationLimitExceeded]
      by (simp add: run_loop_def)
  }
  {
    fix b' assume "snd (run_loop N interior continue b) = Inr b'"
    then have r: "snd (iterate_region N interior continue ?fr b) = Inr b'"
      by (simp add: run_loop_def)
    note x = iterate_exit_bindings [OF r]
    from x [THEN conjunct1] show "\<not> continue b'" .
    from x [THEN conjunct2, THEN conjunct1] show "1 \<le> index (fst (run_loop N interior continue b))"
      by (simp add: run_loop_def)
    from x [THEN conjunct2, THEN conjunct2]
    show "b' = bindings_after interior (index (fst (run_loop N interior continue b))) b"
      by (simp add: run_loop_def)
  }
qed

lemma scen: "run_loop 5 counting_interior below_three 0 = (\<lparr>index = 3, outputs = [1, 2, 3]\<rparr>, Inr 3)"
  by (simp add: run_loop_def iterate_again iterate_exit counting_interior_def below_three_def next_frame_def)

lemma scen2: "run_loop 2 counting_interior below_three 0 = (\<lparr>index = 2, outputs = [1, 2]\<rparr>, Inl LoopIterationLimitExceeded)"
  by (simp add: run_loop_def iterate_again iterate_limit counting_interior_def below_three_def next_frame_def)

lemma counting_after: "bindings_after counting_interior k b = b + k"
  by (induction k arbitrary: b) (simp_all add: bindings_after_0 bindings_after_Suc counting_interior_def)

theorem loop_iteration_cap_witness:
  "snd (run_loop 2 counting_interior below_three 0) = Inl LoopIterationLimitExceeded
   \<and> index (fst (run_loop 2 counting_interior below_three 0)) = 2
   \<and> snd (run_loop 5 counting_interior below_three 0) = Inr 3
   \<and> index (fst (run_loop 5 counting_interior below_three 0)) \<le> 5
   \<and> \<not> below_three 3"
proof -
  have a: "\<forall>k. 1 \<le> k \<and> k \<le> 2 \<longrightarrow> below_three (bindings_after counting_interior k 0)"
    by (simp add: counting_after below_three_def)
  have b: "snd (run_loop 5 counting_interior below_three 0) = Inr 3"
    by (simp add: scen)
  from a loop_iteration_cap [of 2 counting_interior below_three 0]
  have p: "snd (run_loop 2 counting_interior below_three 0) = Inl LoopIterationLimitExceeded
    \<and> index (fst (run_loop 2 counting_interior below_three 0)) = 2"
    by blast
  from b loop_iteration_cap [of 5 counting_interior below_three 0]
  have q: "index (fst (run_loop 5 counting_interior below_three 0)) \<le> 5 \<and> \<not> below_three 3"
    by blast
  from p q b show ?thesis by blast
qed

end
